theory Spec2Isabelle
  imports Main
begin

section \<open>JSON text\<close>

text \<open>
  \<^verbatim>\<open>JSON.parse\<close> and \<^verbatim>\<open>JSON.stringify\<close> belong to the JavaScript runtime. They are modelled
  on the syntax tree of a JSON text: \<open>JSON_parse\<close> accepts exactly the JSON grammar
  (ECMA-404) and returns the tree, or \<open>None\<close> where the runtime throws \<^verbatim>\<open>SyntaxError\<close>;
  \<open>JSON_stringify\<close> prints a tree without white space. Number and string tokens are
  kept as written (a number is not rounded to a double, an escape sequence is checked
  but not decoded), and an object keeps its members in order of appearance.

  JavaScript strings are modelled as \<open>string\<close>: one \<open>char\<close> stands for one code unit, so
  the model covers the strings whose code units are below 256.
\<close>

datatype json =
    JNull
  | JBool bool
  | JNumber string
  | JString string
  | JArray "json list"
  | JObject "(string \<times> json) list"

definition is_ws :: "char \<Rightarrow> bool" where
  "is_ws c = (c = CHR '' '' \<or> c = CHR 0x09 \<or> c = CHR 0x0A \<or> c = CHR 0x0D)"

definition skip_ws :: "string \<Rightarrow> string" where
  "skip_ws cs = dropWhile is_ws cs"

definition is_digit :: "char \<Rightarrow> bool" where
  "is_digit c = (c \<in> set ''0123456789'')"

definition is_hex :: "char \<Rightarrow> bool" where
  "is_hex c = (c \<in> set ''0123456789abcdefABCDEF'')"

text \<open>The characters of a string token after its opening quote, and the rest of the
  input after the closing quote. \<open>CHR 0x22\<close> is the double quote, \<open>CHR 0x5C\<close> the
  backslash.\<close>

fun lex_string :: "string \<Rightarrow> (string \<times> string) option" where
  "lex_string [] = None"
| "lex_string (c # cs) =
     (if c = CHR 0x22 then Some ([], cs)
      else if c = CHR 0x5C then
        (case cs of
           [] \<Rightarrow> None
         | e # cs' \<Rightarrow>
             if e \<in> set ''/bfnrt'' \<or> e = CHR 0x22 \<or> e = CHR 0x5C then
               map_option (apfst (\<lambda>s. c # e # s)) (lex_string cs')
             else if e = CHR ''u'' \<and> 4 \<le> length cs' \<and> list_all is_hex (take 4 cs') then
               map_option (apfst (\<lambda>s. c # e # take 4 cs' @ s)) (lex_string (drop 4 cs'))
             else None)
      else if of_char c < (0x20 :: nat) then None
      else map_option (apfst (\<lambda>s. c # s)) (lex_string cs))"

definition lex_digits :: "string \<Rightarrow> (string \<times> string) option" where
  "lex_digits cs = (if takeWhile is_digit cs = [] then None
                    else Some (takeWhile is_digit cs, dropWhile is_digit cs))"

definition lex_int :: "string \<Rightarrow> (string \<times> string) option" where
  "lex_int cs = (case cs of
       [] \<Rightarrow> None
     | c # r \<Rightarrow> if c = CHR ''0'' then Some ([c], r) else lex_digits cs)"

definition lex_frac :: "string \<Rightarrow> (string \<times> string) option" where
  "lex_frac cs = (case cs of
       [] \<Rightarrow> Some ([], cs)
     | c # r \<Rightarrow> if c = CHR ''.'' then map_option (apfst (\<lambda>s. c # s)) (lex_digits r)
               else Some ([], cs))"

definition lex_sign :: "string \<Rightarrow> string \<times> string" where
  "lex_sign cs = (case cs of
       [] \<Rightarrow> ([], cs)
     | c # r \<Rightarrow> if c = CHR ''+'' \<or> c = CHR ''-'' then ([c], r) else ([], cs))"

definition lex_exp :: "string \<Rightarrow> (string \<times> string) option" where
  "lex_exp cs = (case cs of
       [] \<Rightarrow> Some ([], cs)
     | c # r \<Rightarrow> if c = CHR ''e'' \<or> c = CHR ''E'' then
                 (case lex_sign r of (sg, r') \<Rightarrow>
                    map_option (apfst (\<lambda>s. c # sg @ s)) (lex_digits r'))
               else Some ([], cs))"

definition lex_minus :: "string \<Rightarrow> string \<times> string" where
  "lex_minus cs = (case cs of
       [] \<Rightarrow> ([], cs)
     | c # r \<Rightarrow> if c = CHR ''-'' then ([c], r) else ([], cs))"

definition lex_number :: "string \<Rightarrow> (string \<times> string) option" where
  "lex_number cs =
     (case lex_minus cs of
        (sg, r0) \<Rightarrow>
          (case lex_int r0 of None \<Rightarrow> None
           | Some (ip, r1) \<Rightarrow>
               (case lex_frac r1 of None \<Rightarrow> None
                | Some (fp, r2) \<Rightarrow>
                    (case lex_exp r2 of None \<Rightarrow> None
                     | Some (ep, r3) \<Rightarrow> Some (sg @ ip @ fp @ ep, r3)))))"

definition lex_word :: "string \<Rightarrow> json \<Rightarrow> string \<Rightarrow> (json \<times> string) option" where
  "lex_word kw v cs = (if take (length kw) cs = kw then Some (v, drop (length kw) cs) else None)"

text \<open>
  Recursive descent. \<open>parse_value\<close> reads one value at the head of the input,
  \<open>parse_elements\<close> the elements of an array after its bracket, \<open>parse_members\<close> the
  members of an object after its brace; each returns what it read and the rest of the
  input. A rest that is not shorter than the input is refused, which makes the
  recursion well-founded.
\<close>

function parse_value :: "string \<Rightarrow> (json \<times> string) option"
  and parse_elements :: "json list \<Rightarrow> string \<Rightarrow> (json list \<times> string) option"
  and parse_members ::
    "(string \<times> json) list \<Rightarrow> string \<Rightarrow> ((string \<times> json) list \<times> string) option"
where
  "parse_value cs =
     (case cs of
        [] \<Rightarrow> None
      | c # r \<Rightarrow>
          if c = CHR ''{'' then
            (if take 1 (skip_ws r) = ''}'' then Some (JObject [], drop 1 (skip_ws r))
             else map_option (apfst JObject) (parse_members [] (skip_ws r)))
          else if c = CHR ''['' then
            (if take 1 (skip_ws r) = '']'' then Some (JArray [], drop 1 (skip_ws r))
             else map_option (apfst JArray) (parse_elements [] (skip_ws r)))
          else if c = CHR 0x22 then map_option (apfst JString) (lex_string r)
          else if c = CHR ''t'' then lex_word ''true'' (JBool True) cs
          else if c = CHR ''f'' then lex_word ''false'' (JBool False) cs
          else if c = CHR ''n'' then lex_word ''null'' JNull cs
          else map_option (apfst JNumber) (lex_number cs))"
| "parse_elements acc cs =
     (case parse_value cs of
        None \<Rightarrow> None
      | Some (v, r) \<Rightarrow>
          if length r < length cs then
            (if take 1 (skip_ws r) = '','' then
               parse_elements (acc @ [v]) (skip_ws (drop 1 (skip_ws r)))
             else if take 1 (skip_ws r) = '']'' then Some (acc @ [v], drop 1 (skip_ws r))
             else None)
          else None)"
| "parse_members acc cs =
     (if take 1 cs = [CHR 0x22] then
        (case lex_string (drop 1 cs) of
           None \<Rightarrow> None
         | Some (k, r) \<Rightarrow>
             if length r < length cs \<and> take 1 (skip_ws r) = '':'' then
               (case parse_value (skip_ws (drop 1 (skip_ws r))) of
                  None \<Rightarrow> None
                | Some (v, r') \<Rightarrow>
                    if length r' < length cs then
                      (if take 1 (skip_ws r') = '','' then
                         parse_members (acc @ [(k, v)]) (skip_ws (drop 1 (skip_ws r')))
                       else if take 1 (skip_ws r') = ''}'' then
                         Some (acc @ [(k, v)], drop 1 (skip_ws r'))
                       else None)
                    else None)
             else None)
      else None)"
  by pat_completeness auto

lemma length_skip_ws: "length (skip_ws cs) \<le> length cs"
  by (simp add: skip_ws_def length_dropWhile_le)

lemma skip_ws_shorter:
  assumes "take (Suc 0) (skip_ws r) = [c]" and "length r \<le> n"
  shows "length (skip_ws (drop (Suc 0) (skip_ws r))) < Suc n"
proof -
  from assms(1) have "skip_ws r \<noteq> []" by auto
  then have "length (drop (Suc 0) (skip_ws r)) < length (skip_ws r)" by simp
  moreover have "length (skip_ws (drop (Suc 0) (skip_ws r))) \<le> length (drop (Suc 0) (skip_ws r))"
    by (rule length_skip_ws)
  moreover have "length (skip_ws r) \<le> length r" by (rule length_skip_ws)
  ultimately show ?thesis using assms(2) by linarith
qed

termination parse_value
proof (relation "measures
    [\<lambda>x. case x of Inl cs \<Rightarrow> length cs | Inr (Inl (_, cs)) \<Rightarrow> length cs
                 | Inr (Inr (_, cs)) \<Rightarrow> length cs,
     \<lambda>x. case x of Inl _ \<Rightarrow> 0 | Inr _ \<Rightarrow> Suc 0]", goal_cases)
  case 1
  show ?case by simp
next
  case (2 cs c r)
  then show ?case by (simp add: le_imp_less_Suc length_skip_ws)
next
  case (3 cs c r)
  then show ?case by (simp add: le_imp_less_Suc length_skip_ws)
next
  case (4 acc cs)
  show ?case by simp
next
  case (5 acc cs x v r)
  from 5 have "length (skip_ws (drop (Suc 0) (skip_ws r))) < Suc (length r)"
    using skip_ws_shorter [of r "CHR '',''" "length r"] by simp
  with 5 show ?case by simp
next
  case (6 acc cs x k r)
  from 6 have "length (skip_ws (drop (Suc 0) (skip_ws r))) < Suc (length r)"
    using skip_ws_shorter [of r "CHR '':''" "length r"] by simp
  with 6 show ?case by simp
next
  case (7 acc cs x k r y v r')
  from 7 have "length (skip_ws (drop (Suc 0) (skip_ws r'))) < Suc (length r')"
    using skip_ws_shorter [of r' "CHR '',''" "length r'"] by simp
  with 7 show ?case by simp
qed

declare parse_value.simps [simp del] parse_elements.simps [simp del]
  parse_members.simps [simp del]

definition JSON_parse :: "string \<Rightarrow> json option" where
  "JSON_parse s =
     (case parse_value (skip_ws s) of
        None \<Rightarrow> None
      | Some (v, r) \<Rightarrow> if skip_ws r = [] then Some v else None)"

definition join :: "string \<Rightarrow> string list \<Rightarrow> string" where
  "join sep xs = (case xs of [] \<Rightarrow> [] | y # ys \<Rightarrow> y @ concat (map (\<lambda>z. sep @ z) ys))"

fun JSON_stringify :: "json \<Rightarrow> string" where
  "JSON_stringify JNull = ''null''"
| "JSON_stringify (JBool b) = (if b then ''true'' else ''false'')"
| "JSON_stringify (JNumber n) = n"
| "JSON_stringify (JString s) = [CHR 0x22] @ s @ [CHR 0x22]"
| "JSON_stringify (JArray vs) = ''['' @ join '','' (map JSON_stringify vs) @ '']''"
| "JSON_stringify (JObject ms) =
     ''{'' @ join '','' (map (\<lambda>(k, v). [CHR 0x22] @ k @ [CHR 0x22] @ '':'' @ JSON_stringify v) ms)
      @ ''}''"

section \<open>The WebSocket client of the web viewer (static/js/comms.js)\<close>

text \<open>
  The class \<^verbatim>\<open>Comms\<close> wraps one browser WebSocket. Its fields are the first eight
  fields of the record \<open>comms\<close>; the part of the browser the class acts on is kept in
  the same record: the timers started with \<^verbatim>\<open>setTimeout\<close> (the delay of each, in
  milliseconds; every one of them calls \<^verbatim>\<open>connect\<close>), the messages given to
  \<^verbatim>\<open>window.postMessage\<close> and the console. The socket object behind \<^verbatim>\<open>this.ws\<close> is a
  record of its \<^verbatim>\<open>readyState\<close> and of the frames it has transmitted.
\<close>

subsection \<open>Browser objects\<close>

datatype readyState = CONNECTING | OPEN | CLOSING | CLOSED

record websocket =
  readyState :: readyState
  sent :: "string list"

datatype error = TypeError | InvalidStateError | SyntaxError

text \<open>A console entry keeps the arguments of the call: strings, numbers, a caught
  exception, or the event object of an \<^verbatim>\<open>error\<close> event. A template literal is kept as its
  pieces.\<close>

datatype console_arg = Str string | Num int | Err error | Ev

datatype console_entry = Log "console_arg list" | Error "console_arg list"

text \<open>What \<^verbatim>\<open>parseMessage\<close> returns: \<^verbatim>\<open>{type, data}\<close> or \<^verbatim>\<open>{type, text}\<close>.\<close>

datatype content = Data json | Text string

record message =
  type :: string
  content :: content

text \<open>The \<^verbatim>\<open>data\<close> of a message event: a string, or binary data (a Blob or an
  ArrayBuffer), of which the handler only asks whether it is a string.\<close>

datatype event_data = StringData string | BinaryData

record comms =
  host :: string
  port :: int
  ws :: "websocket option"
  reconnectAttempts :: int
  maxReconnectAttempts :: int
  reconnectDelay :: int
  messageQueue :: "string list"
  isConnected :: bool
  timers :: "int list"
  posted :: "message option list"
  console :: "console_entry list"

text \<open>A call either returns, with the state it leaves, or throws, with the state at
  the throw.\<close>

type_synonym outcome = "error \<times> comms + comms"

text \<open>
  \<^verbatim>\<open>this.ws.send(message)\<close>, as the WebSocket interface defines it: reading \<^verbatim>\<open>send\<close> of
  \<^verbatim>\<open>null\<close> throws a TypeError; a socket that is still connecting throws
  InvalidStateError; an open socket transmits the frame; a closing or closed socket
  drops it without an exception.
\<close>

definition ws_send :: "string \<Rightarrow> comms \<Rightarrow> outcome" where
  "ws_send message c =
     (case ws c of
        None \<Rightarrow> Inl (TypeError, c)
      | Some s \<Rightarrow>
          (case readyState s of
             CONNECTING \<Rightarrow> Inl (InvalidStateError, c)
           | OPEN \<Rightarrow> Inr (c\<lparr>ws := Some (s\<lparr>sent := sent s @ [message]\<rparr>)\<rparr>)
           | CLOSING \<Rightarrow> Inr c
           | CLOSED \<Rightarrow> Inr c))"

subsection \<open>Methods\<close>

definition types :: "(char \<times> string) list" where
  "types =
     [(CHR ''C'', ''command''),
      (CHR ''D'', ''data''),
      (CHR ''S'', ''config''),
      (CHR ''U'', ''update''),
      (CHR ''L'', ''listen''),
      (CHR ''B'', ''backend''),
      (CHR ''R'', ''response'')]"

text \<open>\<^verbatim>\<open>types[typeChar] || 'unknown'\<close>: a missing key reads as \<^verbatim>\<open>undefined\<close>, and
  \<^verbatim>\<open>||\<close> replaces \<^verbatim>\<open>undefined\<close> and the empty string.\<close>

definition getMessageType :: "char \<Rightarrow> string" where
  "getMessageType typeChar =
     (case map_of types typeChar of
        None \<Rightarrow> ''unknown''
      | Some t \<Rightarrow> if t = [] then ''unknown'' else t)"

text \<open>\<^verbatim>\<open>parseMessage\<close> returns \<^verbatim>\<open>null\<close> (\<open>None\<close>) on a string shorter than two
  characters. The \<^verbatim>\<open>catch\<close> branch is the one taken when \<^verbatim>\<open>JSON.parse\<close> throws.\<close>

definition parseMessage :: "string \<Rightarrow> message option" where
  "parseMessage data =
     (if length data < 2 then None
      else
        (let type = data ! 0;
             content = drop 2 data
         in case JSON_parse content of
              Some parsed \<Rightarrow> Some \<lparr>type = getMessageType type, content = Data parsed\<rparr>
            | None \<Rightarrow> Some \<lparr>type = getMessageType type, content = Text content\<rparr>))"

text \<open>\<^verbatim>\<open>send(message)\<close> declares one parameter.\<close>

definition send :: "string \<Rightarrow> comms \<Rightarrow> outcome" where
  "send message c =
     (if isConnected c \<and> ws c \<noteq> None \<and> map_option readyState (ws c) = Some OPEN then
        ws_send message c
      else
        Inr (c\<lparr>messageQueue := messageQueue c @ [message],
               console := console c @ [Log [Str ''Message queued (not connected):'', Str message]]\<rparr>))"

text \<open>A call of \<^verbatim>\<open>send\<close> with a list of actual arguments, already evaluated. JavaScript
  binds the first to the parameter \<^verbatim>\<open>message\<close> and has no parameter for the others;
  with no argument \<^verbatim>\<open>message\<close> is \<^verbatim>\<open>undefined\<close>, which a socket transmits as the string
  \<^verbatim>\<open>undefined\<close>.\<close>

definition call_send :: "string list \<Rightarrow> comms \<Rightarrow> outcome" where
  "call_send args c = send (case args of [] \<Rightarrow> ''undefined'' | message # _ \<Rightarrow> message) c"

definition sendStatus :: "json \<Rightarrow> comms \<Rightarrow> outcome" where
  "sendStatus message c =
     call_send [''U:'',
                JSON_stringify (JObject [(''command'', JString ''status''), (''text'', message)])] c"

definition attemptReconnect :: "comms \<Rightarrow> comms" where
  "attemptReconnect c =
     (if reconnectAttempts c < maxReconnectAttempts c then
        (let c1 = c\<lparr>reconnectAttempts := reconnectAttempts c + 1\<rparr>;
             c2 = c1\<lparr>console := console c1 @
                    [Log [Str ''Attempting to reconnect ('', Num (reconnectAttempts c1), Str ''/'',
                          Num (maxReconnectAttempts c1), Str '')...'']]\<rparr>
         in c2\<lparr>timers := timers c2 @ [reconnectDelay c2 * reconnectAttempts c2]\<rparr>)
      else c\<lparr>console := console c @ [Error [Str ''Max reconnection attempts reached'']]\<rparr>)"

text \<open>\<^verbatim>\<open>close()\<close> clears the flag, asks the socket to close and forgets it. The socket
  object leaves the state with the reference; its \<^verbatim>\<open>close\<close> event still reaches
  \<^verbatim>\<open>onclose\<close> later.\<close>

definition close :: "comms \<Rightarrow> comms" where
  "close c =
     (let c1 = c\<lparr>isConnected := False\<rparr>
      in case ws c1 of
           None \<Rightarrow> c1
         | Some s \<Rightarrow> c1\<lparr>ws := None\<rparr>)"

text \<open>\<^verbatim>\<open>new WebSocket(url)\<close> returns a socket that is connecting, or throws (a
  \<^verbatim>\<open>SyntaxError\<close> on a URL it cannot parse); which of the two is the browser's
  decision and a parameter here. The four handlers that \<^verbatim>\<open>connect\<close> installs on the
  socket are the functions of the next subsection; the \<^verbatim>\<open>catch\<close> branch logs the
  exception and calls \<^verbatim>\<open>attemptReconnect\<close>.\<close>

definition new_WebSocket :: "error option \<Rightarrow> error + websocket" where
  "new_WebSocket thrown =
     (case thrown of
        None \<Rightarrow> Inr \<lparr>readyState = CONNECTING, sent = []\<rparr>
      | Some e \<Rightarrow> Inl e)"

definition connect :: "error option \<Rightarrow> comms \<Rightarrow> comms" where
  "connect thrown c =
     (case new_WebSocket thrown of
        Inr socket \<Rightarrow> c\<lparr>ws := Some socket\<rparr>
      | Inl e \<Rightarrow>
          attemptReconnect (c\<lparr>console := console c @ [Error [Str ''Failed to create WebSocket:'', Err e]]\<rparr>))"

definition Comms :: "string \<Rightarrow> int \<Rightarrow> error option \<Rightarrow> comms" where
  "Comms h p thrown =
     connect thrown
       \<lparr>host = h, port = p, ws = None, reconnectAttempts = 0, maxReconnectAttempts = 5,
        reconnectDelay = 1000, messageQueue = [], isConnected = False,
        timers = [], posted = [], console = []\<rparr>"

subsection \<open>Event handlers\<close>

text \<open>The loop of \<^verbatim>\<open>onopen\<close>: while the queue is not empty, shift its first message
  and hand it to the socket.\<close>

function process_queue :: "comms \<Rightarrow> outcome" where
  "process_queue c =
     (if length (messageQueue c) > 0 then
        (case ws_send (hd (messageQueue c)) (c\<lparr>messageQueue := tl (messageQueue c)\<rparr>) of
           Inl e \<Rightarrow> Inl e
         | Inr c' \<Rightarrow> process_queue c')
      else Inr c)"
  by pat_completeness auto

lemma ws_send_messageQueue: "ws_send m c = Inr c' \<Longrightarrow> messageQueue c' = messageQueue c"
  by (auto simp: ws_send_def split: option.splits readyState.splits)

termination process_queue
proof (relation "measure (\<lambda>c. length (messageQueue c))", goal_cases)
  case 1
  show ?case by simp
next
  case (2 c c')
  then show ?case by (auto dest: ws_send_messageQueue)
qed

declare process_queue.simps [simp del]

definition onopen :: "comms \<Rightarrow> outcome" where
  "onopen c =
     (let c1 = c\<lparr>console := console c @ [Log [Str ''WebSocket connected'']]\<rparr>;
          c2 = c1\<lparr>isConnected := True\<rparr>;
          c3 = c2\<lparr>reconnectAttempts := 0\<rparr>
      in case call_send [''L:'', ''''] c3 of
           Inl e \<Rightarrow> Inl e
         | Inr c4 \<Rightarrow> process_queue c4)"

text \<open>Nothing in the \<^verbatim>\<open>try\<close> block of \<^verbatim>\<open>onmessage\<close> throws: \<^verbatim>\<open>parseMessage\<close> catches the
  only exception it can meet, and its result is a plain object, which
  \<^verbatim>\<open>window.postMessage\<close> accepts.\<close>

definition onmessage :: "event_data \<Rightarrow> comms \<Rightarrow> comms" where
  "onmessage data c =
     (case data of
        StringData d \<Rightarrow> (let message = parseMessage d in c\<lparr>posted := posted c @ [message]\<rparr>)
      | BinaryData \<Rightarrow> c)"

definition onclose :: "comms \<Rightarrow> comms" where
  "onclose c =
     attemptReconnect
       (c\<lparr>console := console c @ [Log [Str ''WebSocket disconnected'']], isConnected := False\<rparr>)"

definition onerror :: "comms \<Rightarrow> comms" where
  "onerror c =
     c\<lparr>console := console c @ [Error [Str ''WebSocket error:'', Ev]], isConnected := False\<rparr>"

subsection \<open>Browser events and runs\<close>

text \<open>
  The events of the socket that \<^verbatim>\<open>this.ws\<close> refers to. The browser sets the socket's
  \<^verbatim>\<open>readyState\<close> and then calls the handler: \<^verbatim>\<open>open\<close> is fired on a connecting socket
  once its connection is established, \<^verbatim>\<open>close\<close> once it is closed. A reconnection timer
  that fires calls \<^verbatim>\<open>connect\<close>.
\<close>

definition set_readyState :: "readyState \<Rightarrow> comms \<Rightarrow> comms" where
  "set_readyState r c = c\<lparr>ws := map_option (\<lambda>s. s\<lparr>readyState := r\<rparr>) (ws c)\<rparr>"

definition socket_opened :: "comms \<Rightarrow> outcome" where
  "socket_opened c = onopen (set_readyState OPEN c)"

definition socket_closed :: "comms \<Rightarrow> comms" where
  "socket_closed c = onclose (set_readyState CLOSED c)"

definition timer_fired :: "error option \<Rightarrow> comms \<Rightarrow> comms" where
  "timer_fired thrown c =
     (case timers c of
        [] \<Rightarrow> c
      | d # ds \<Rightarrow> connect thrown (c\<lparr>timers := ds\<rparr>))"

text \<open>Everything that can happen to a \<^verbatim>\<open>Comms\<close> object: a call of one of its methods
  that change it, or an event of the browser.\<close>

datatype action =
    Connect "error option"
  | Send string
  | SendStatus json
  | AttemptReconnect
  | Close
  | Opened
  | Message event_data
  | Closed
  | Errored
  | Timer "error option"

definition state_of :: "outcome \<Rightarrow> comms" where
  "state_of r = (case r of Inl (e, c) \<Rightarrow> c | Inr c \<Rightarrow> c)"

fun step :: "action \<Rightarrow> comms \<Rightarrow> comms" where
  "step (Connect thrown) c = connect thrown c"
| "step (Send m) c = state_of (send m c)"
| "step (SendStatus s) c = state_of (sendStatus s c)"
| "step AttemptReconnect c = attemptReconnect c"
| "step Close c = close c"
| "step Opened c = state_of (socket_opened c)"
| "step (Message d) c = onmessage d c"
| "step Closed c = socket_closed c"
| "step Errored c = onerror c"
| "step (Timer thrown) c = timer_fired thrown c"

fun run :: "action list \<Rightarrow> comms \<Rightarrow> comms" where
  "run [] c = c"
| "run (a # as) c = run as (step a c)"

text \<open>The test of \<^verbatim>\<open>send\<close>: the flag is set and \<^verbatim>\<open>this.ws\<close> is an open socket.\<close>

definition connection_open :: "comms \<Rightarrow> bool" where
  "connection_open c =
     (isConnected c \<and> (case ws c of None \<Rightarrow> False | Some s \<Rightarrow> readyState s = OPEN))"

text \<open>The state in which \<^verbatim>\<open>send\<close> leaves a message it has queued.\<close>

definition queued :: "string \<Rightarrow> comms \<Rightarrow> comms" where
  "queued m c =
     c\<lparr>messageQueue := messageQueue c @ [m],
       console := console c @ [Log [Str ''Message queued (not connected):'', Str m]]\<rparr>"

text \<open>The bounds on the reconnection counter.\<close>

definition reconnect_inv :: "comms \<Rightarrow> bool" where
  "reconnect_inv c =
     (0 \<le> reconnectAttempts c \<and> reconnectAttempts c \<le> maxReconnectAttempts c
      \<and> maxReconnectAttempts c = 5 \<and> reconnectDelay c = 1000)"

text \<open>The state the \<^verbatim>\<open>open\<close> event leaves: the flag set, the counter reset, and on the
  socket the frame \<^verbatim>\<open>L:\<close> followed by the queue.\<close>

definition opened :: "websocket \<Rightarrow> comms \<Rightarrow> comms" where
  "opened s c =
     c\<lparr>console := console c @ [Log [Str ''WebSocket connected'']],
       isConnected := True,
       reconnectAttempts := 0,
       ws := Some \<lparr>readyState = OPEN, sent = sent s @ ''L:'' # messageQueue c\<rparr>,
       messageQueue := []\<rparr>"

text \<open>Two states for examples: a client just constructed, whose socket is connecting,
  and the same client after the \<^verbatim>\<open>open\<close> event.\<close>

definition connecting_state :: comms where
  "connecting_state = Comms ''localhost'' 3939 None"

definition open_state :: comms where
  "open_state = step Opened connecting_state"

text \<open>The frames transmitted so far on the socket that \<^verbatim>\<open>this.ws\<close> refers to.\<close>

definition frames :: "comms \<Rightarrow> string list" where
  "frames c = (case ws c of None \<Rightarrow> [] | Some s \<Rightarrow> sent s)"

text \<open>The three fields of the reconnection policy.\<close>

definition counters :: "comms \<Rightarrow> int \<times> int \<times> int" where
  "counters c = (reconnectAttempts c, maxReconnectAttempts c, reconnectDelay c)"

text \<open>Five connections in a row that close without having opened, each followed by the
  timer it started, and the client they leave when started on a client just
  constructed.\<close>

definition five_failures :: "action list" where
  "five_failures = concat (replicate 5 [Closed, Timer None])"

definition given_up_state :: comms where
  "given_up_state = run five_failures connecting_state"

section \<open>The logo scene (logo.js)\<close>

text \<open>
  \<^verbatim>\<open>logo()\<close> returns an object literal \<^verbatim>\<open>{data: {shapes: ...}, config: ...}\<close>. The records
  below are the shapes of its \<^verbatim>\<open>data\<close>; \<^verbatim>\<open>config\<close>, a flat table of viewer options, is
  read neither by the decoding of buffers nor by the resolution of references and is
  left out. Field names that occur in several object shapes are qualified by the
  record (\<open>part.type\<close>, \<open>assembly.type\<close>, \<open>shapes.type\<close>); the record of an
  element of \<^verbatim>\<open>instances\<close> is \<open>geometry\<close>, and the field \<^verbatim>\<open>id\<close> of a part is \<open>part_id\<close>.
\<close>

record encoded_buffer =
  buffer :: string
  codec :: string
  dtype :: string

record geometry =
  vertices :: encoded_buffer
  obj_vertices :: encoded_buffer
  normals :: encoded_buffer
  triangles :: encoded_buffer
  edges :: encoded_buffer

record shape_ref =
  ref :: nat

record part =
  type :: string
  shape :: shape_ref
  state :: "bool list"
  part_id :: string
  name :: string

record assembly =
  type :: string
  parts :: "part list"

record bounding_box =
  xmin :: int
  xmax :: int
  ymin :: int
  ymax :: int
  zmin :: int
  zmax :: int

record shapes =
  type :: string
  shape :: assembly
  instances :: "geometry list"
  bb :: bounding_box

record scene_data =
  shapes :: shapes

record scene =
  data :: scene_data

definition logo :: scene where
  "logo =
     \<lparr>data =
        \<lparr>shapes =
           \<lparr>shapes.type = ''shapes'',
            shapes.shape =
              \<lparr>assembly.type = ''assembly'',
               parts =
                 [\<lparr>part.type = ''shapes'',
                   part.shape = \<lparr>ref = 0\<rparr>,
                   state = [True, True],
                   part_id = ''logo'',
                   name = ''OCP Logo''\<rparr>]\<rparr>,
            instances =
              [\<lparr>vertices = \<lparr>buffer = ''AQAAAAAA'', codec = ''b64'', dtype = ''float32''\<rparr>,
                obj_vertices = \<lparr>buffer = ''AQAAAAAA'', codec = ''b64'', dtype = ''float32''\<rparr>,
                normals = \<lparr>buffer = ''AQAAAAAA'', codec = ''b64'', dtype = ''float32''\<rparr>,
                triangles = \<lparr>buffer = ''AQAAAAAA'', codec = ''b64'', dtype = ''int32''\<rparr>,
                edges = \<lparr>buffer = ''AQAAAAAA'', codec = ''b64'', dtype = ''int32''\<rparr>\<rparr>],
            bb = \<lparr>xmin = -10, xmax = 10, ymin = -10, ymax = 10, zmin = -10, zmax = 10\<rparr>\<rparr>\<rparr>\<rparr>"

text \<open>The five buffers of an instance, in the order of the literal.\<close>

definition buffers :: "geometry \<Rightarrow> encoded_buffer list" where
  "buffers i = [vertices i, obj_vertices i, normals i, triangles i, edges i]"

subsection \<open>Base64\<close>

text \<open>The codec \<^verbatim>\<open>b64\<close> is base64 (RFC 4648): four characters of the alphabet carry
  three bytes, and a last group padded with \<^verbatim>\<open>=\<close> carries one or two. Bytes are natural
  numbers below 256.\<close>

definition b64_alphabet :: string where
  "b64_alphabet = ''ABCDEFGHIJKLMNOPQRSTUVWXYZabcdefghijklmnopqrstuvwxyz0123456789+/''"

fun index_of :: "'a \<Rightarrow> 'a list \<Rightarrow> nat option" where
  "index_of x [] = None"
| "index_of x (y # ys) = (if x = y then Some 0 else map_option Suc (index_of x ys))"

definition b64_index :: "char \<Rightarrow> nat option" where
  "b64_index c = index_of c b64_alphabet"

fun fromB64 :: "string \<Rightarrow> nat list option" where
  "fromB64 [] = Some []"
| "fromB64 (a # b # c # d # rest) =
     (case (b64_index a, b64_index b) of
        (Some ia, Some ib) \<Rightarrow>
          if c = CHR ''='' \<and> d = CHR ''='' \<and> rest = [] then Some [(ia * 64 + ib) div 16]
          else
            (case b64_index c of
               None \<Rightarrow> None
             | Some ic \<Rightarrow>
                 if d = CHR ''='' \<and> rest = [] then
                   Some [(ia * 64 + ib) div 16, ((ib mod 16) * 64 + ic) div 4]
                 else
                   (case b64_index d of
                      None \<Rightarrow> None
                    | Some idx \<Rightarrow>
                        map_option
                          (\<lambda>bytes. [(ia * 64 + ib) div 16, ((ib mod 16) * 64 + ic) div 4,
                                    (ic mod 4) * 64 + idx] @ bytes)
                          (fromB64 rest)))
      | _ \<Rightarrow> None)"
| "fromB64 _ = None"

subsection \<open>Decoding a buffer\<close>

datatype codec_error = MalformedBuffer

text \<open>
  Modelled from the spec: the decoder of the geometry buffers (\<^verbatim>\<open>decode\<close> of the viewer
  page, which the standalone page applies to \<^verbatim>\<open>logo()\<close>) is not among the sources. The
  specification (4.1) gives its contract: each numeric array is encoded as an element
  type tag and an encoded byte payload, the element types are the 32-bit float and the
  32-bit integer, and "decoding validates that payload length is an exact multiple of
  the element size for the declared type and fails with a MalformedBuffer error
  otherwise (never silently truncates or pads)". A decoded array is kept as its
  elements, each the bytes that encode it. A payload that is not base64 text, and an
  element type that is not one of the two, are refused with the same error.
\<close>

definition element_size :: "string \<Rightarrow> nat option" where
  "element_size t = (if t = ''float32'' \<or> t = ''int32'' then Some 4 else None)"

fun chunks :: "nat list \<Rightarrow> nat list list" where
  "chunks (a # b # c # d # rest) = [a, b, c, d] # chunks rest"
| "chunks _ = []"

definition payload :: "encoded_buffer \<Rightarrow> nat list option" where
  "payload b = (if codec b = ''b64'' then fromB64 (buffer b) else None)"

definition decode :: "encoded_buffer \<Rightarrow> codec_error + nat list list" where
  "decode b =
     (case (element_size (dtype b), payload b) of
        (Some n, Some bytes) \<Rightarrow>
          if length bytes mod n = 0 then Inr (chunks bytes) else Inl MalformedBuffer
      | _ \<Rightarrow> Inl MalformedBuffer)"

subsection \<open>References into the instance table\<close>

definition scene_parts :: "scene \<Rightarrow> part list" where
  "scene_parts sc = parts (shapes.shape (shapes (data sc)))"

definition instance_table :: "scene \<Rightarrow> geometry list" where
  "instance_table sc = instances (shapes (data sc))"

text \<open>Every part refers to an entry of the instance table of its own scene, and
  carries a visibility state of two booleans.\<close>

definition resolves :: "scene \<Rightarrow> part \<Rightarrow> bool" where
  "resolves sc p = (ref (part.shape p) < length (instance_table sc))"

definition well_formed :: "scene \<Rightarrow> bool" where
  "well_formed sc = list_all (\<lambda>p. resolves sc p \<and> length (state p) = 2) (scene_parts sc)"

section \<open>The parser consumes its input\<close>

text \<open>Every value that is read takes at least one character, so the tests on the length
  of the rest in \<open>parse_elements\<close> and \<open>parse_members\<close> never fail.\<close>

lemma lex_string_shorter: "lex_string cs = Some (s, r) \<Longrightarrow> length r < Suc (length cs)"
proof (induction cs arbitrary: s r rule: lex_string.induct)
  case 1
  then show ?case by simp
next
  case (2 c cs)
  show ?case
  proof (cases "c = CHR 0x22")
    case True
    with "2.prems" show ?thesis by simp
  next
    case nq: False
    show ?thesis
    proof (cases "c = CHR 0x5C")
      case False
      with nq "2.prems" obtain s' where "lex_string cs = Some (s', r)"
        by (auto split: if_splits)
      from "2.IH"(3) [OF nq False _ this] "2.prems" nq False show ?thesis
        by (auto split: if_splits)
    next
      case bs: True
      show ?thesis
      proof (cases cs)
        case Nil
        with "2.prems" nq bs show ?thesis by simp
      next
        case (Cons e cs')
        show ?thesis
        proof (cases "e \<in> set ''/bfnrt'' \<or> e = CHR 0x22 \<or> e = CHR 0x5C")
          case True
          with "2.prems" nq bs Cons obtain s' where "lex_string cs' = Some (s', r)"
            by auto
          from "2.IH"(1) [OF nq bs Cons True this] Cons show ?thesis by simp
        next
          case False
          with "2.prems" nq bs Cons obtain s' where u: "e = CHR ''u'' \<and> 4 \<le> length cs' \<and> list_all is_hex (take 4 cs')"
            and "lex_string (drop 4 cs') = Some (s', r)"
            by (auto split: if_splits)
          from "2.IH"(2) [OF nq bs Cons False u this(2)] Cons show ?thesis by simp
        qed
      qed
    qed
  qed
qed

lemma lex_digits_shorter: "lex_digits cs = Some (s, r) \<Longrightarrow> length r < length cs"
proof -
  assume a: "lex_digits cs = Some (s, r)"
  then have "takeWhile is_digit cs \<noteq> []" and r: "r = dropWhile is_digit cs"
    by (auto simp: lex_digits_def split: if_splits)
  moreover have "length (takeWhile is_digit cs) + length (dropWhile is_digit cs) = length cs"
    by (metis length_append takeWhile_dropWhile_id)
  ultimately show ?thesis by (cases "takeWhile is_digit cs") auto
qed

lemma lex_int_shorter: "lex_int cs = Some (s, r) \<Longrightarrow> length r < length cs"
  by (auto simp: lex_int_def split: list.splits if_splits dest: lex_digits_shorter)

lemma lex_frac_le: "lex_frac cs = Some (s, r) \<Longrightarrow> length r \<le> length cs"
  by (auto simp: lex_frac_def split: list.splits if_splits dest!: lex_digits_shorter)

lemma lex_sign_le: "lex_sign cs = (s, r) \<Longrightarrow> length r \<le> length cs"
  by (auto simp: lex_sign_def split: list.splits if_splits)

lemma lex_exp_le: "lex_exp cs = Some (s, r) \<Longrightarrow> length r \<le> length cs"
  by (auto simp: lex_exp_def split: list.splits if_splits prod.splits
      dest!: lex_digits_shorter lex_sign_le)

lemma lex_minus_le: "lex_minus cs = (s, r) \<Longrightarrow> length r \<le> length cs"
  by (auto simp: lex_minus_def split: list.splits if_splits)

lemma lex_number_shorter: "lex_number cs = Some (s, r) \<Longrightarrow> length r < length cs"
  by (auto simp: lex_number_def split: prod.splits option.splits
      dest!: lex_minus_le lex_int_shorter lex_frac_le lex_exp_le)

lemma lex_word_shorter: "kw \<noteq> [] \<Longrightarrow> lex_word kw v cs = Some (w, r) \<Longrightarrow> length r < length cs"
proof -
  assume k: "kw \<noteq> []" and "lex_word kw v cs = Some (w, r)"
  then have t: "take (length kw) cs = kw" and r: "r = drop (length kw) cs"
    by (auto simp: lex_word_def split: if_splits)
  from t k have "cs \<noteq> []" by auto
  with k r show ?thesis by (cases kw) auto
qed


lemma skip_ws_le: "length cs \<le> n \<Longrightarrow> length (skip_ws cs) \<le> n"
  using length_skip_ws [of cs] by simp

lemma drop_skip_ws_le: "length (drop k (skip_ws cs)) \<le> length cs"
  using length_skip_ws [of cs] by simp

lemma parse_shorter:
  "\<forall>v r. parse_value cs = Some (v, r) \<longrightarrow> length r < length cs"
  "\<forall>vs r. parse_elements acc cs = Some (vs, r) \<longrightarrow> length r < length cs"
  "\<forall>ms r. parse_members macc cs = Some (ms, r) \<longrightarrow> length r < length cs"
proof (induction cs and acc cs and macc cs rule: parse_value_parse_elements_parse_members.induct)
  case (1 cs)
  show ?case
  proof (intro allI impI)
    fix v r
    assume a: "parse_value cs = Some (v, r)"
    show "length r < length cs"
    proof (cases cs)
      case Nil
      with a show ?thesis by (simp add: parse_value.simps)
    next
      case (Cons c t)
      note st = length_skip_ws [of t]
      consider (obj) "c = CHR ''{''" | (arr) "c \<noteq> CHR ''{''" "c = CHR ''[''"
        | (other) "c \<noteq> CHR ''{''" "c \<noteq> CHR ''[''"
        by blast
      then show ?thesis
      proof cases
        case obj
        show ?thesis
        proof (cases "take 1 (skip_ws t) = ''}''")
          case True
          with a Cons obj have "r = drop 1 (skip_ws t)" by (simp add: parse_value.simps)
          with Cons drop_skip_ws_le [of 1 t] show ?thesis by simp
        next
          case False
          with a Cons obj obtain ms where "parse_members [] (skip_ws t) = Some (ms, r)"
            by (auto simp: parse_value.simps)
          with "1.IH"(1) [OF Cons obj False] have "length r < length (skip_ws t)" by blast
          with st Cons show ?thesis by simp
        qed
      next
        case arr
        show ?thesis
        proof (cases "take 1 (skip_ws t) = '']''")
          case True
          with a Cons arr have "r = drop 1 (skip_ws t)" by (simp add: parse_value.simps)
          with Cons drop_skip_ws_le [of 1 t] show ?thesis by simp
        next
          case False
          with a Cons arr obtain vs where "parse_elements [] (skip_ws t) = Some (vs, r)"
            by (auto simp: parse_value.simps)
          with "1.IH"(2) [OF Cons arr False] have "length r < length (skip_ws t)" by blast
          with st Cons show ?thesis by simp
        qed
      next
        case other
        with a Cons show ?thesis
          by (auto simp: parse_value.simps split: if_splits
              dest!: lex_string_shorter lex_number_shorter lex_word_shorter [rotated])
      qed
    qed
  qed
next
  case (2 acc cs)
  show ?case
  proof (intro allI impI)
    fix vs r
    assume a: "parse_elements acc cs = Some (vs, r)"
    then obtain v r0 where v: "parse_value cs = Some (v, r0)"
      by (auto simp: parse_elements.simps [of acc cs] split: option.splits)
    with "2.IH"(1) have r0: "length r0 < length cs" by blast
    show "length r < length cs"
    proof (cases "take 1 (skip_ws r0) = '',''")
      case True
      with a v r0 have "parse_elements (acc @ [v]) (skip_ws (drop 1 (skip_ws r0))) = Some (vs, r)"
        by (simp add: parse_elements.simps [of acc cs])
      with "2.IH"(2) [OF v refl r0 True]
      have "length r < length (skip_ws (drop 1 (skip_ws r0)))" by blast
      with skip_ws_le [OF drop_skip_ws_le [of 1 r0]] r0 show ?thesis by simp
    next
      case False
      with a v r0 have "r = drop 1 (skip_ws r0)"
        by (auto simp: parse_elements.simps [of acc cs] split: if_splits)
      with drop_skip_ws_le [of 1 r0] r0 show ?thesis by simp
    qed
  qed
next
  case (3 acc cs)
  show ?case
  proof (intro allI impI)
    fix ms r
    assume a: "parse_members acc cs = Some (ms, r)"
    then have q: "take 1 cs = [CHR 0x22]"
      by (auto simp: parse_members.simps [of acc cs] split: if_splits)
    with a obtain k r0 where k: "lex_string (drop 1 cs) = Some (k, r0)"
      by (auto simp: parse_members.simps [of acc cs] split: option.splits)
    with a q have g: "length r0 < length cs \<and> take 1 (skip_ws r0) = '':''"
      by (auto simp: parse_members.simps [of acc cs] split: if_splits)
    with a q k obtain v r1 where v: "parse_value (skip_ws (drop 1 (skip_ws r0))) = Some (v, r1)"
      by (auto simp: parse_members.simps [of acc cs] split: option.splits)
    with "3.IH"(1) [OF q k refl g]
    have "length r1 < length (skip_ws (drop 1 (skip_ws r0)))" by blast
    with skip_ws_le [OF drop_skip_ws_le [of 1 r0]] g have r1: "length r1 < length cs" by simp
    show "length r < length cs"
    proof (cases "take 1 (skip_ws r1) = '',''")
      case True
      with a q k g v r1
      have "parse_members (acc @ [(k, v)]) (skip_ws (drop 1 (skip_ws r1))) = Some (ms, r)"
        by (simp add: parse_members.simps [of acc cs])
      with "3.IH"(2) [OF q k refl g v refl r1 True]
      have "length r < length (skip_ws (drop 1 (skip_ws r1)))" by blast
      with skip_ws_le [OF drop_skip_ws_le [of 1 r1]] r1 show ?thesis by simp
    next
      case False
      with a q k g v r1 have "r = drop 1 (skip_ws r1)"
        by (auto simp: parse_members.simps [of acc cs] split: if_splits)
      with drop_skip_ws_le [of 1 r1] r1 show ?thesis by simp
    qed
  qed
qed

lemma parse_value_shorter: "parse_value cs = Some (v, r) \<Longrightarrow> length r < length cs"
  using parse_shorter(1) by blast

lemma parse_elements_unguarded:
  "parse_elements acc cs =
     (case parse_value cs of
        None \<Rightarrow> None
      | Some (v, r) \<Rightarrow>
          if take 1 (skip_ws r) = '','' then
            parse_elements (acc @ [v]) (skip_ws (drop 1 (skip_ws r)))
          else if take 1 (skip_ws r) = '']'' then Some (acc @ [v], drop 1 (skip_ws r))
          else None)"
  by (subst parse_elements.simps) (auto split: option.splits dest: parse_value_shorter)

lemma parse_members_unguarded:
  "parse_members acc cs =
     (if take 1 cs = [CHR 0x22] then
        (case lex_string (drop 1 cs) of
           None \<Rightarrow> None
         | Some (k, r) \<Rightarrow>
             if take 1 (skip_ws r) = '':'' then
               (case parse_value (skip_ws (drop 1 (skip_ws r))) of
                  None \<Rightarrow> None
                | Some (v, r') \<Rightarrow>
                    if take 1 (skip_ws r') = '','' then
                      parse_members (acc @ [(k, v)]) (skip_ws (drop 1 (skip_ws r')))
                    else if take 1 (skip_ws r') = ''}'' then
                      Some (acc @ [(k, v)], drop 1 (skip_ws r'))
                    else None)
             else None)
      else None)"
proof -
  have 1: "length r < length cs"
    if "take (Suc 0) cs = [CHR 0x22]" "lex_string (drop (Suc 0) cs) = Some (k, r)" for k r
  proof -
    from that(1) have "cs \<noteq> []" by auto
    then have "Suc (length (drop (Suc 0) cs)) = length cs" by (cases cs) auto
    with lex_string_shorter [OF that(2)] show ?thesis by simp
  qed
  have 2: "length r' < length cs"
    if "length r < length cs" "parse_value (skip_ws (drop (Suc 0) (skip_ws r))) = Some (v, r')"
    for r v r'
    using parse_value_shorter [OF that(2)] skip_ws_le [OF drop_skip_ws_le [of "Suc 0" r]] that(1)
    by simp
  show ?thesis
    by (subst parse_members.simps) (auto split: option.splits dest: 1 2)
qed

section \<open>Sending and queueing\<close>

lemma send_guard: 
  "(isConnected c \<and> ws c \<noteq> None \<and> map_option readyState (ws c) = Some OPEN) = connection_open c"
  by (cases "ws c") (auto simp: connection_open_def)

lemma send_open:
  assumes "connection_open c"
  shows "\<exists>s. ws c = Some s \<and> readyState s = OPEN
             \<and> send m c = Inr (c\<lparr>ws := Some (s\<lparr>sent := sent s @ [m]\<rparr>)\<rparr>)"
proof -
  from assms obtain s where s: "ws c = Some s" "readyState s = OPEN" "isConnected c"
    by (cases "ws c") (auto simp: connection_open_def)
  then have "send m c = Inr (c\<lparr>ws := Some (s\<lparr>sent := sent s @ [m]\<rparr>)\<rparr>)"
    by (simp add: send_def ws_send_def)
  with s show ?thesis by blast
qed

lemma send_cases:
  "send m c = (if connection_open c then ws_send m c else Inr (queued m c))"
  unfolding send_def queued_def send_guard ..

lemma send_not_open: "\<not> connection_open c \<Longrightarrow> send m c = Inr (queued m c)"
  by (simp add: send_cases)

lemma close_not_open: "\<not> connection_open (close c)"
  by (cases "ws c") (simp_all add: close_def connection_open_def)

lemma send_returns: "\<exists>c'. send m c = Inr c'"
proof (cases "connection_open c")
  case True
  from send_open [OF this, of m] show ?thesis by blast
next
  case False
  then show ?thesis by (simp add: send_not_open)
qed

text \<open>
  C9. \<^verbatim>\<open>send\<close> hands its message to the socket only when \<^verbatim>\<open>isConnected\<close> is true and
  \<^verbatim>\<open>this.ws\<close> is a socket whose \<^verbatim>\<open>readyState\<close> is \<^verbatim>\<open>OPEN\<close>, and the socket then transmits
  it. In every other state (the socket connecting, closing or closed, \<^verbatim>\<open>this.ws\<close> null,
  the flag cleared, and so after \<^verbatim>\<open>close()\<close>) the message is appended to the queue
  and the socket is left as it is. \<^verbatim>\<open>send\<close> never throws.
\<close>

theorem send_transmits_only_when_open:
  "(connection_open c \<longrightarrow>
      (\<exists>s. ws c = Some s \<and> readyState s = OPEN \<and> isConnected c
           \<and> send m c = Inr (c\<lparr>ws := Some (s\<lparr>sent := sent s @ [m]\<rparr>)\<rparr>)))
   \<and> (\<not> connection_open c \<longrightarrow>
        send m c = Inr (queued m c) \<and> ws (queued m c) = ws c
        \<and> messageQueue (queued m c) = messageQueue c @ [m])
   \<and> \<not> connection_open (close c)
   \<and> send m (close c) = Inr (queued m (close c))
   \<and> (\<forall>e c'. send m c \<noteq> Inl (e, c'))"
proof -
  have "connection_open c \<Longrightarrow> isConnected c" by (simp add: connection_open_def)
  moreover have "ws (queued m c) = ws c" "messageQueue (queued m c) = messageQueue c @ [m]"
    by (simp_all add: queued_def)
  moreover have "\<forall>e c'. send m c \<noteq> Inl (e, c')" using send_returns [of m c] by auto
  ultimately show ?thesis
    using send_open [of c m] send_not_open [of c m] close_not_open [of c]
      send_not_open [OF close_not_open, of m c]
    by blast
qed

theorem send_transmits_only_when_open_witness:
  "connection_open open_state
   \<and> send ''U:'' open_state
       = Inr (open_state\<lparr>ws := Some \<lparr>readyState = OPEN, sent = [''L:'', ''U:'']\<rparr>\<rparr>)
   \<and> \<not> connection_open connecting_state
   \<and> send ''U:'' connecting_state = Inr (queued ''U:'' connecting_state)"
proof -
  have o: "connection_open open_state" by code_simp
  have n: "\<not> connection_open connecting_state" by code_simp
  have w: "ws open_state = Some \<lparr>readyState = OPEN, sent = [''L:'']\<rparr>" by code_simp
  from send_transmits_only_when_open [of open_state "''U:''"] o
  obtain s where "ws open_state = Some s"
    and "send ''U:'' open_state = Inr (open_state\<lparr>ws := Some (s\<lparr>sent := sent s @ [''U:'']\<rparr>)\<rparr>)"
    by blast
  with w have 1: "send ''U:'' open_state
      = Inr (open_state\<lparr>ws := Some \<lparr>readyState = OPEN, sent = [''L:'', ''U:'']\<rparr>\<rparr>)"
    by simp
  from send_transmits_only_when_open [of connecting_state "''U:''"] n
  have 2: "send ''U:'' connecting_state = Inr (queued ''U:'' connecting_state)"
    by blast
  from o n 1 2 show ?thesis by blast
qed

section \<open>Opening a connection\<close>

lemma process_queue_open:
  assumes "ws c = Some s" and "readyState s = OPEN"
  shows "process_queue c
         = Inr (c\<lparr>ws := Some (s\<lparr>sent := sent s @ messageQueue c\<rparr>), messageQueue := []\<rparr>)"
  using assms
proof (induction "messageQueue c" arbitrary: c s)
  case Nil
  then have "process_queue c = Inr c" by (subst process_queue.simps) simp
  moreover from Nil have "c\<lparr>ws := Some (s\<lparr>sent := sent s @ messageQueue c\<rparr>), messageQueue := []\<rparr> = c"
    by simp
  ultimately show ?case by simp
next
  case (Cons m q)
  let ?s' = "s\<lparr>sent := sent s @ [m]\<rparr>"
  let ?c' = "c\<lparr>messageQueue := q, ws := Some ?s'\<rparr>"
  from Cons.hyps(2) have mq: "messageQueue c = m # q" by simp
  from Cons.prems have sendm: "ws_send m (c\<lparr>messageQueue := q\<rparr>) = Inr ?c'"
    by (simp add: ws_send_def)
  have "process_queue c = process_queue ?c'"
    by (subst process_queue.simps) (simp add: sendm mq)
  also have "\<dots> = Inr (?c'\<lparr>ws := Some (?s'\<lparr>sent := sent ?s' @ messageQueue ?c'\<rparr>), messageQueue := []\<rparr>)"
    by (rule Cons.hyps(1)) (simp_all add: Cons.prems)
  also have "\<dots> = Inr (c\<lparr>ws := Some (s\<lparr>sent := sent s @ messageQueue c\<rparr>), messageQueue := []\<rparr>)"
    by (simp add: mq)
  finally show ?case .
qed

lemma socket_opened_eq:
  assumes "ws c = Some s"
  shows "socket_opened c = Inr (opened s c)"
proof -
  let ?c3 = "(set_readyState OPEN c)
      \<lparr>console := console c @ [Log [Str ''WebSocket connected'']],
       isConnected := True, reconnectAttempts := 0\<rparr>"
  let ?s1 = "\<lparr>readyState = OPEN, sent = sent s @ [''L:'']\<rparr>"
  from assms have ws3: "ws ?c3 = Some (s\<lparr>readyState := OPEN\<rparr>)"
    by (simp add: set_readyState_def)
  then have "connection_open ?c3" by (simp add: connection_open_def)
  then have "call_send [''L:'', ''''] ?c3 = Inr (?c3\<lparr>ws := Some ?s1\<rparr>)"
    using ws3 by (simp add: call_send_def send_cases ws_send_def)
  moreover have "process_queue (?c3\<lparr>ws := Some ?s1\<rparr>)
      = Inr (?c3\<lparr>ws := Some ?s1\<rparr>\<lparr>ws := Some (?s1\<lparr>sent := sent ?s1 @ messageQueue (?c3\<lparr>ws := Some ?s1\<rparr>)\<rparr>),
                  messageQueue := []\<rparr>)"
    by (rule process_queue_open) simp_all
  ultimately have "socket_opened c
      = Inr (?c3\<lparr>ws := Some ?s1\<rparr>\<lparr>ws := Some (?s1\<lparr>sent := sent ?s1 @ messageQueue (?c3\<lparr>ws := Some ?s1\<rparr>)\<rparr>),
                  messageQueue := []\<rparr>)"
    by (simp add: socket_opened_def onopen_def Let_def set_readyState_def)
  then show ?thesis by (simp add: opened_def set_readyState_def)
qed



section \<open>The queue between a send and the next open\<close>

lemma attemptReconnect_fields [simp]:
  "messageQueue (attemptReconnect c) = messageQueue c"
  "ws (attemptReconnect c) = ws c"
  "isConnected (attemptReconnect c) = isConnected c"
  by (simp_all add: attemptReconnect_def Let_def)

lemma connect_messageQueue [simp]: "messageQueue (connect thrown c) = messageQueue c"
  by (cases thrown) (simp_all add: connect_def new_WebSocket_def)

lemma state_of_ws_send_messageQueue [simp]:
  "messageQueue (state_of (ws_send m c)) = messageQueue c"
  by (simp add: ws_send_def state_of_def split: option.splits readyState.splits)

lemma state_of_simps [simp]: "state_of (Inr c) = c" "state_of (Inl (e, c)) = c"
  by (simp_all add: state_of_def)

lemma state_of_send_messageQueue:
  "messageQueue (state_of (send m c))
   = (if connection_open c then messageQueue c else messageQueue c @ [m])"
  by (simp add: send_cases queued_def)

lemma step_keeps_queue:
  assumes "a \<noteq> Opened"
  shows "\<exists>later. messageQueue (step a c) = messageQueue c @ later"
proof (cases a)
  case (Send m)
  then show ?thesis by (simp add: state_of_send_messageQueue)
next
  case (SendStatus s)
  then show ?thesis
    by (simp add: sendStatus_def call_send_def state_of_send_messageQueue)
next
  case (Timer thrown)
  then show ?thesis by (cases "timers c") (simp_all add: timer_fired_def)
next
  case (Message d)
  then show ?thesis by (cases d) (simp_all add: onmessage_def Let_def)
next
  case Close
  then show ?thesis by (cases "ws c") (simp_all add: close_def)
qed (use assms in \<open>simp_all add: socket_closed_def onclose_def onerror_def set_readyState_def\<close>)

lemma run_keeps_queue:
  assumes "Opened \<notin> set as"
  shows "\<exists>later. messageQueue (run as c) = messageQueue c @ later"
  using assms
proof (induction as arbitrary: c)
  case Nil
  show ?case by simp
next
  case (Cons a as)
  then have "a \<noteq> Opened" and "Opened \<notin> set as" by auto
  from step_keeps_queue [OF this(1), of c]
  obtain l1 where l1: "messageQueue (step a c) = messageQueue c @ l1" by blast
  from Cons.IH [OF \<open>Opened \<notin> set as\<close>, of "step a c"]
  obtain l2 where "messageQueue (run as (step a c)) = messageQueue (step a c) @ l2" by blast
  with l1 have "messageQueue (run (a # as) c) = messageQueue c @ (l1 @ l2)" by simp
  then show ?case by blast
qed

text \<open>
  C2. A message given to \<^verbatim>\<open>send\<close> while the connection is not open is appended to the
  queue, and the socket is left as it is. Whatever happens to the client afterwards,
  short of a socket opening, the message stays in the queue with the messages queued
  before it in front and those queued later behind; when the socket then opens, the
  handler returns, the whole queue has been transmitted in that order after the
  registration frame, and the queue is empty.
\<close>

theorem queued_messages_flushed_on_open:
  assumes "\<not> connection_open c" and "Opened \<notin> set as"
    and "ws (run as (queued m c)) = Some s"
  shows "send m c = Inr (queued m c)
         \<and> messageQueue (queued m c) = messageQueue c @ [m]
         \<and> frames (queued m c) = frames c
         \<and> (\<exists>later c'. messageQueue (run as (queued m c)) = messageQueue c @ m # later
               \<and> socket_opened (run as (queued m c)) = Inr c'
               \<and> frames c' = sent s @ ''L:'' # messageQueue c @ m # later
               \<and> messageQueue c' = [])"
proof -
  let ?c = "run as (queued m c)"
  from run_keeps_queue [OF assms(2), of "queued m c"]
  obtain later where "messageQueue ?c = messageQueue (queued m c) @ later" by blast
  then have q: "messageQueue ?c = messageQueue c @ m # later" by (simp add: queued_def)
  from assms(3) have o: "socket_opened ?c = Inr (opened s ?c)" by (rule socket_opened_eq)
  have "frames (opened s ?c) = sent s @ ''L:'' # messageQueue ?c"
    and e: "messageQueue (opened s ?c) = []"
    by (simp_all add: frames_def opened_def)
  with q have f: "frames (opened s ?c) = sent s @ ''L:'' # messageQueue c @ m # later" by simp
  from assms(1) have "send m c = Inr (queued m c)" by (rule send_not_open)
  moreover have "messageQueue (queued m c) = messageQueue c @ [m]"
    and "frames (queued m c) = frames c"
    by (simp_all add: queued_def frames_def)
  ultimately show ?thesis using q o f e by blast
qed

theorem queued_messages_flushed_on_open_witness:
  "\<not> connection_open connecting_state
   \<and> Opened \<notin> set [Closed, Send ''b'', Timer None]
   \<and> ws (run [Closed, Send ''b'', Timer None] (queued ''a'' connecting_state))
       = Some \<lparr>readyState = CONNECTING, sent = []\<rparr>
   \<and> send ''a'' connecting_state = Inr (queued ''a'' connecting_state)
   \<and> (\<exists>c'. socket_opened (run [Closed, Send ''b'', Timer None] (queued ''a'' connecting_state))
               = Inr c'
            \<and> frames c' = [''L:'', ''a'', ''b''] \<and> messageQueue c' = [])"
proof -
  let ?as = "[Closed, Send ''b'', Timer None]"
  let ?c = "run ?as (queued ''a'' connecting_state)"
  have n: "\<not> connection_open connecting_state" by code_simp
  have a: "Opened \<notin> set ?as" by simp
  have w: "ws ?c = Some \<lparr>readyState = CONNECTING, sent = []\<rparr>" by code_simp
  have q0: "messageQueue connecting_state = []" by code_simp
  have q: "messageQueue ?c = [''a'', ''b'']" by code_simp
  from queued_messages_flushed_on_open [OF n a w]
  obtain later c' where s: "send ''a'' connecting_state = Inr (queued ''a'' connecting_state)"
    and l: "messageQueue ?c = messageQueue connecting_state @ ''a'' # later"
    and o: "socket_opened ?c = Inr c'"
    and f: "frames c' = sent \<lparr>readyState = CONNECTING, sent = []\<rparr> @ ''L:''
                         # messageQueue connecting_state @ ''a'' # later"
    and e: "messageQueue c' = []"
    by blast
  from l q q0 have "later = [''b'']" by simp
  with f q0 have "frames c' = [''L:'', ''a'', ''b'']" by simp
  with n a w s o e show ?thesis by blast
qed

section \<open>Reconnection\<close>

lemma reconnect_inv_counters:
  "reconnect_inv c = (case counters c of (a, m, d) \<Rightarrow> 0 \<le> a \<and> a \<le> m \<and> m = 5 \<and> d = 1000)"
  by (simp add: reconnect_inv_def counters_def)

lemma counters_ws_send [simp]: "counters (state_of (ws_send m c)) = counters c"
  by (simp add: ws_send_def counters_def split: option.splits readyState.splits)

lemma counters_send [simp]: "counters (state_of (send m c)) = counters c"
  by (simp add: send_cases queued_def) (simp add: counters_def)

lemma counters_process_queue [simp]: "counters (state_of (process_queue c)) = counters c"
proof (induction c rule: process_queue.induct)
  case (1 c)
  let ?r = "ws_send (hd (messageQueue c)) (c\<lparr>messageQueue := tl (messageQueue c)\<rparr>)"
  show ?case
  proof (cases "length (messageQueue c) > 0")
    case False
    then show ?thesis by (subst process_queue.simps) simp
  next
    case True
    have k: "counters (state_of ?r) = counters c"
      by (simp only: counters_ws_send) (simp add: counters_def)
    show ?thesis
    proof (cases ?r)
      case (Inl ec)
      with True have "process_queue c = Inl ec" by (subst process_queue.simps) simp
      with k Inl show ?thesis by simp
    next
      case (Inr c')
      with True have "process_queue c = process_queue c'" by (subst process_queue.simps) simp
      moreover from "1.IH" [OF True Inr] have "counters (state_of (process_queue c')) = counters c'" .
      moreover from k Inr have "counters c' = counters c" by simp
      ultimately show ?thesis by simp
    qed
  qed
qed

lemma counters_onopen:
  "counters (state_of (onopen c)) = (0, maxReconnectAttempts c, reconnectDelay c)"
proof -
  let ?c3 = "c\<lparr>console := console c @ [Log [Str ''WebSocket connected'']],
              isConnected := True, reconnectAttempts := 0\<rparr>"
  have c3: "counters ?c3 = (0, maxReconnectAttempts c, reconnectDelay c)"
    by (simp add: counters_def)
  have k: "counters (state_of (send ''L:'' ?c3)) = (0, maxReconnectAttempts c, reconnectDelay c)"
    by (simp only: counters_send c3)
  show ?thesis
  proof (cases "send ''L:'' ?c3")
    case (Inl ec)
    then have "onopen c = Inl ec" by (simp add: onopen_def call_send_def)
    with k Inl show ?thesis by simp
  next
    case (Inr c4)
    then have "onopen c = process_queue c4" by (simp add: onopen_def call_send_def)
    moreover from k Inr have "counters c4 = (0, maxReconnectAttempts c, reconnectDelay c)" by simp
    ultimately show ?thesis by simp
  qed
qed

lemma counters_socket_opened:
  "counters (state_of (socket_opened c)) = (0, maxReconnectAttempts c, reconnectDelay c)"
  by (simp add: socket_opened_def counters_onopen) (simp add: set_readyState_def)

lemma attemptReconnect_inv: "reconnect_inv c \<Longrightarrow> reconnect_inv (attemptReconnect c)"
  by (simp add: reconnect_inv_def attemptReconnect_def Let_def)

lemma attemptReconnect_schedules:
  assumes "reconnect_inv c" and "reconnectAttempts c < 5"
  shows "timers (attemptReconnect c) = timers c @ [(reconnectAttempts c + 1) * 1000]"
    and "reconnectAttempts (attemptReconnect c) = reconnectAttempts c + 1"
  using assms by (simp_all add: reconnect_inv_def attemptReconnect_def Let_def)

lemma attemptReconnect_gives_up:
  assumes "reconnect_inv c" and "reconnectAttempts c = 5"
  shows "timers (attemptReconnect c) = timers c"
    and "reconnectAttempts (attemptReconnect c) = 5"
  using assms by (simp_all add: reconnect_inv_def attemptReconnect_def Let_def)

lemma connect_inv: "reconnect_inv c \<Longrightarrow> reconnect_inv (connect thrown c)"
proof (cases thrown)
  case None
  assume "reconnect_inv c"
  with None show ?thesis by (simp add: connect_def new_WebSocket_def reconnect_inv_def)
next
  case (Some e)
  assume "reconnect_inv c"
  then have "reconnect_inv (c\<lparr>console := console c @ [Error [Str ''Failed to create WebSocket:'', Err e]]\<rparr>)"
    by (simp add: reconnect_inv_def)
  then show ?thesis using Some
    by (simp add: connect_def new_WebSocket_def attemptReconnect_inv)
qed

lemma socket_closed_inv: "reconnect_inv c \<Longrightarrow> reconnect_inv (socket_closed c)"
proof -
  assume "reconnect_inv c"
  then have "reconnect_inv ((set_readyState CLOSED c)
      \<lparr>console := console (set_readyState CLOSED c) @ [Log [Str ''WebSocket disconnected'']],
       isConnected := False\<rparr>)"
    by (simp add: reconnect_inv_def set_readyState_def)
  then show ?thesis by (simp add: socket_closed_def onclose_def attemptReconnect_inv)
qed

lemma step_inv:
  assumes "reconnect_inv c"
  shows "reconnect_inv (step a c)"
proof (cases a)
  case (Connect thrown)
  with assms show ?thesis by (simp add: connect_inv)
next
  case (Send m)
  with assms show ?thesis by (simp add: reconnect_inv_counters)
next
  case (SendStatus s)
  with assms show ?thesis by (simp add: reconnect_inv_counters sendStatus_def call_send_def)
next
  case AttemptReconnect
  with assms show ?thesis by (simp add: attemptReconnect_inv)
next
  case Close
  with assms show ?thesis by (cases "ws c") (simp_all add: close_def reconnect_inv_def)
next
  case Opened
  with assms show ?thesis
    by (simp add: reconnect_inv_counters counters_socket_opened) (simp add: counters_def)
next
  case (Message d)
  with assms show ?thesis by (cases d) (simp_all add: onmessage_def Let_def reconnect_inv_def)
next
  case Closed
  with assms show ?thesis by (simp add: socket_closed_inv)
next
  case Errored
  with assms show ?thesis by (simp add: onerror_def reconnect_inv_def)
next
  case (Timer thrown)
  show ?thesis
  proof (cases "timers c")
    case Nil
    with Timer assms show ?thesis by (simp add: timer_fired_def)
  next
    case (Cons d ds)
    from assms have "reconnect_inv (c\<lparr>timers := ds\<rparr>)" by (simp add: reconnect_inv_def)
    then have "reconnect_inv (connect thrown (c\<lparr>timers := ds\<rparr>))" by (rule connect_inv)
    with Timer Cons show ?thesis by (simp add: timer_fired_def)
  qed
qed

lemma Comms_inv: "reconnect_inv (Comms h p thrown)"
  unfolding Comms_def by (rule connect_inv) (simp add: reconnect_inv_def)

lemma lost_schedules:
  assumes "reconnect_inv c" and "reconnectAttempts c < 5"
  shows "timers (socket_closed c) = timers c @ [(reconnectAttempts c + 1) * 1000]"
    and "reconnectAttempts (socket_closed c) = reconnectAttempts c + 1"
    and "timers (connect (Some e) c) = timers c @ [(reconnectAttempts c + 1) * 1000]"
    and "reconnectAttempts (connect (Some e) c) = reconnectAttempts c + 1"
proof -
  let ?c1 = "(set_readyState CLOSED c)
      \<lparr>console := console (set_readyState CLOSED c) @ [Log [Str ''WebSocket disconnected'']],
       isConnected := False\<rparr>"
  let ?c2 = "c\<lparr>console := console c @ [Error [Str ''Failed to create WebSocket:'', Err e]]\<rparr>"
  from assms have 1: "reconnect_inv ?c1" "reconnectAttempts ?c1 < 5"
    and 2: "reconnect_inv ?c2" "reconnectAttempts ?c2 < 5"
    by (simp_all add: reconnect_inv_def set_readyState_def)
  have e1: "socket_closed c = attemptReconnect ?c1" by (simp add: socket_closed_def onclose_def)
  have e2: "connect (Some e) c = attemptReconnect ?c2" by (simp add: connect_def new_WebSocket_def)
  from attemptReconnect_schedules [OF 1]
  show "timers (socket_closed c) = timers c @ [(reconnectAttempts c + 1) * 1000]"
    and "reconnectAttempts (socket_closed c) = reconnectAttempts c + 1"
    unfolding e1 by (simp_all add: set_readyState_def)
  from attemptReconnect_schedules [OF 2]
  show "timers (connect (Some e) c) = timers c @ [(reconnectAttempts c + 1) * 1000]"
    and "reconnectAttempts (connect (Some e) c) = reconnectAttempts c + 1"
    unfolding e2 by simp_all
qed

lemma lost_gives_up:
  assumes "reconnect_inv c" and "reconnectAttempts c = 5"
  shows "timers (socket_closed c) = timers c"
    and "timers (connect (Some e) c) = timers c"
proof -
  let ?c1 = "(set_readyState CLOSED c)
      \<lparr>console := console (set_readyState CLOSED c) @ [Log [Str ''WebSocket disconnected'']],
       isConnected := False\<rparr>"
  let ?c2 = "c\<lparr>console := console c @ [Error [Str ''Failed to create WebSocket:'', Err e]]\<rparr>"
  from assms have 1: "reconnect_inv ?c1" "reconnectAttempts ?c1 = 5"
    and 2: "reconnect_inv ?c2" "reconnectAttempts ?c2 = 5"
    by (simp_all add: reconnect_inv_def set_readyState_def)
  have e1: "socket_closed c = attemptReconnect ?c1" by (simp add: socket_closed_def onclose_def)
  have e2: "connect (Some e) c = attemptReconnect ?c2" by (simp add: connect_def new_WebSocket_def)
  from attemptReconnect_gives_up(1) [OF 1]
  show "timers (socket_closed c) = timers c" unfolding e1 by (simp add: set_readyState_def)
  from attemptReconnect_gives_up(1) [OF 2]
  show "timers (connect (Some e) c) = timers c" unfolding e2 by simp
qed

text \<open>
  C10. The bounds \<open>0 \<le> reconnectAttempts \<le> maxReconnectAttempts = 5\<close> (with
  \<open>reconnectDelay = 1000\<close>) hold of a constructed client and are kept by every method
  call and every browser event. A lost connection and a failed \<^verbatim>\<open>connect\<close> start at most
  one timer: while the counter is below 5 they increment it and start exactly one, with
  a delay of the new counter times 1000 milliseconds; when the counter has reached 5
  they start none. The \<^verbatim>\<open>open\<close> event resets the counter to 0.
\<close>

theorem reconnect_attempts_bounded:
  "reconnect_inv (Comms h p thrown)
   \<and> (reconnect_inv c \<longrightarrow> reconnect_inv (step a c))
   \<and> (reconnect_inv c \<and> reconnectAttempts c < 5 \<longrightarrow>
        timers (socket_closed c) = timers c @ [(reconnectAttempts c + 1) * 1000]
        \<and> reconnectAttempts (socket_closed c) = reconnectAttempts c + 1
        \<and> timers (connect (Some e) c) = timers c @ [(reconnectAttempts c + 1) * 1000]
        \<and> reconnectAttempts (connect (Some e) c) = reconnectAttempts c + 1)
   \<and> (reconnect_inv c \<and> reconnectAttempts c = 5 \<longrightarrow>
        timers (socket_closed c) = timers c \<and> timers (connect (Some e) c) = timers c)
   \<and> reconnectAttempts (state_of (socket_opened c)) = 0"
proof -
  have "reconnectAttempts (state_of (socket_opened c)) = 0"
    using counters_socket_opened [of c] by (simp add: counters_def)
  then show ?thesis
    using Comms_inv [of h p thrown] step_inv [of c a] lost_schedules [of c]
      lost_gives_up [of c]
    by blast
qed

theorem reconnect_attempts_bounded_witness:
  "reconnect_inv connecting_state \<and> reconnectAttempts connecting_state < 5
   \<and> reconnect_inv (step Closed connecting_state)
   \<and> timers (socket_closed connecting_state) = [1000]
   \<and> reconnectAttempts (socket_closed connecting_state) = 1
   \<and> reconnect_inv given_up_state \<and> reconnectAttempts given_up_state = 5
   \<and> timers (socket_closed given_up_state) = []
   \<and> timers (connect (Some SyntaxError) given_up_state) = []"
proof -
  have i0: "reconnect_inv connecting_state" by code_simp
  have a0: "reconnectAttempts connecting_state = 0" and t0: "timers connecting_state = []"
    by code_simp+
  have i5: "reconnect_inv given_up_state" by code_simp
  have a5: "reconnectAttempts given_up_state = 5" and t5: "timers given_up_state = []"
    by code_simp+
  note t = reconnect_attempts_bounded [of "''localhost''" 3939 None]
  from t [of connecting_state Closed SyntaxError] i0 a0
  have "reconnect_inv (step Closed connecting_state)"
    and "timers (socket_closed connecting_state)
         = timers connecting_state @ [(reconnectAttempts connecting_state + 1) * 1000]"
    and "reconnectAttempts (socket_closed connecting_state)
         = reconnectAttempts connecting_state + 1"
    by simp_all
  with a0 t0 have 1: "reconnect_inv (step Closed connecting_state)"
    "timers (socket_closed connecting_state) = [1000]"
    "reconnectAttempts (socket_closed connecting_state) = 1"
    by simp_all
  from t [of given_up_state Closed SyntaxError] i5 a5
  have "timers (socket_closed given_up_state) = timers given_up_state"
    and "timers (connect (Some SyntaxError) given_up_state) = timers given_up_state"
    by simp_all
  with t5 have 2: "timers (socket_closed given_up_state) = []"
    "timers (connect (Some SyntaxError) given_up_state) = []"
    by simp_all
  from i0 a0 1 i5 a5 2 show ?thesis by simp
qed

section \<open>Incoming messages\<close>

lemma getMessageType_unknown:
  "map_of types ch = None \<Longrightarrow> getMessageType ch = ''unknown''"
  by (simp add: getMessageType_def)

lemma parseMessage_eq:
  assumes "2 \<le> length d"
  shows "parseMessage d
         = Some \<lparr>message.type = getMessageType (d ! 0),
                 content = (case JSON_parse (drop 2 d) of
                              Some parsed \<Rightarrow> Data parsed
                            | None \<Rightarrow> Text (drop 2 d))\<rparr>"
  using assms by (simp add: parseMessage_def Let_def split: option.splits)

lemma onmessage_string:
  "onmessage (StringData d) c = c\<lparr>posted := posted c @ [parseMessage d]\<rparr>"
  by (simp add: onmessage_def Let_def)

text \<open>
  C5. The table of \<^verbatim>\<open>getMessageType\<close> has seven entries, with seven different
  one-character keys and seven different kinds. \<^verbatim>\<open>getMessageType\<close> gives the seven keys
  \<^verbatim>\<open>C\<close>, \<^verbatim>\<open>D\<close>, \<^verbatim>\<open>S\<close>, \<^verbatim>\<open>U\<close>, \<^verbatim>\<open>L\<close>, \<^verbatim>\<open>B\<close>, \<^verbatim>\<open>R\<close> the seven kinds \<^verbatim>\<open>command\<close>, \<^verbatim>\<open>data\<close>,
  \<^verbatim>\<open>config\<close>, \<^verbatim>\<open>update\<close>, \<^verbatim>\<open>listen\<close>, \<^verbatim>\<open>backend\<close>, \<^verbatim>\<open>response\<close>, one each and all
  different, so that two keys never share a kind; a character gets a kind other than
  \<^verbatim>\<open>unknown\<close> exactly when it is one of the keys, and every other character gets
  \<^verbatim>\<open>unknown\<close>. On a string of at least two characters \<^verbatim>\<open>parseMessage\<close> returns the kind
  of the first character with what follows index 2: as parsed data when it is a JSON
  text, as text otherwise.
\<close>

theorem parseMessage_kind_and_payload:
  "length types = 7 \<and> distinct (map fst types) \<and> distinct (map snd types)
   \<and> (getMessageType ch \<noteq> ''unknown'') = (ch \<in> set ''CDSULBR'')
   \<and> (2 \<le> length d \<longrightarrow>
        parseMessage d
        = Some \<lparr>message.type = getMessageType (d ! 0),
                content = (case JSON_parse (drop 2 d) of
                             Some parsed \<Rightarrow> Data parsed
                           | None \<Rightarrow> Text (drop 2 d))\<rparr>)
   \<and> map fst types = ''CDSULBR''
   \<and> map getMessageType ''CDSULBR''
       = [''command'', ''data'', ''config'', ''update'', ''listen'', ''backend'', ''response'']
   \<and> map getMessageType (map fst types) = map snd types
   \<and> distinct (map getMessageType ''CDSULBR'')
   \<and> ''unknown'' \<notin> set (map getMessageType ''CDSULBR'')
   \<and> (getMessageType ch = getMessageType ch' \<and> ch \<in> set ''CDSULBR'' \<longrightarrow> ch = ch')"
proof -
  have "length types = 7" "distinct (map fst types)" "distinct (map snd types)"
    by (simp_all add: types_def)
  moreover have "(getMessageType ch \<noteq> ''unknown'') = (ch \<in> set ''CDSULBR'')"
    by (simp add: getMessageType_def types_def)
  moreover have "map fst types = ''CDSULBR''" by (simp add: types_def)
  moreover have kinds: "map getMessageType ''CDSULBR''
       = [''command'', ''data'', ''config'', ''update'', ''listen'', ''backend'', ''response'']"
    by (simp add: getMessageType_def types_def)
  moreover have "map getMessageType (map fst types) = map snd types"
    by (simp add: getMessageType_def types_def)
  moreover have "distinct (map getMessageType ''CDSULBR'')"
    unfolding kinds by simp
  moreover have "''unknown'' \<notin> set (map getMessageType ''CDSULBR'')"
    unfolding kinds by simp
  moreover have "getMessageType ch = getMessageType ch' \<and> ch \<in> set ''CDSULBR'' \<longrightarrow> ch = ch'"
    by (simp add: getMessageType_def types_def)
  ultimately show ?thesis using parseMessage_eq [of d] by blast
qed

theorem parseMessage_kind_and_payload_witness:
  "2 \<le> length ''D:{}''
   \<and> parseMessage ''D:{}'' = Some \<lparr>message.type = ''data'', content = Data (JObject [])\<rparr>
   \<and> getMessageType (CHR ''D'') = getMessageType (CHR ''D'') \<and> CHR ''D'' \<in> set ''CDSULBR''
   \<and> getMessageType (CHR ''D'') \<noteq> getMessageType (CHR ''C'')"
proof -
  note t = parseMessage_kind_and_payload [of "CHR ''D''" "''D:{}''"]
  have l: "2 \<le> length ''D:{}''" by simp
  have m: "CHR ''D'' \<in> set ''CDSULBR''" by simp
  have j: "JSON_parse (drop 2 ''D:{}'') = Some (JObject [])" by code_simp
  from t [of "CHR ''D''"]
  have "map getMessageType ''CDSULBR''
       = [''command'', ''data'', ''config'', ''update'', ''listen'', ''backend'', ''response'']"
    by blast
  then have k: "getMessageType (CHR ''D'') = ''data''" by simp
  from t [of "CHR ''D''"] l
  have "parseMessage ''D:{}''
        = Some \<lparr>message.type = getMessageType (''D:{}'' ! 0),
                content = (case JSON_parse (drop 2 ''D:{}'') of
                             Some parsed \<Rightarrow> Data parsed
                           | None \<Rightarrow> Text (drop 2 ''D:{}''))\<rparr>"
    by blast
  with k j have p: "parseMessage ''D:{}''
      = Some \<lparr>message.type = ''data'', content = Data (JObject [])\<rparr>"
    by simp
  from t [of "CHR ''C''"] m have "getMessageType (CHR ''D'') = getMessageType (CHR ''C'')
      \<longrightarrow> CHR ''D'' = CHR ''C''"
    by blast
  then have n: "getMessageType (CHR ''D'') \<noteq> getMessageType (CHR ''C'')" by auto
  from l p m n show ?thesis by simp
qed

text \<open>
  C3, as claimed, fails: the message \<^verbatim>\<open>X:{}\<close>, whose first character is none of the seven
  keys, is given to \<^verbatim>\<open>window.postMessage\<close>, with the kind \<^verbatim>\<open>unknown\<close>.
\<close>

theorem unknown_type_forwarded_counterexample:
  "map_of types (CHR ''X'') = None
   \<and> onmessage (StringData ''X:{}'') open_state
     = open_state\<lparr>posted := [Some \<lparr>message.type = ''unknown'', content = Data (JObject [])\<rparr>]\<rparr>"
  by code_simp

text \<open>
  C3, amended. An incoming string of at least two characters whose first character is
  none of the seven keys is not dropped: the handler returns, having given the viewer a
  message of kind \<^verbatim>\<open>unknown\<close> that carries what follows index 2, and having changed
  nothing else, so the socket stays as it was.
\<close>

theorem unknown_type_forwarded:
  assumes "2 \<le> length d" and "map_of types (d ! 0) = None"
  shows "onmessage (StringData d) c
         = c\<lparr>posted := posted c @
               [Some \<lparr>message.type = ''unknown'',
                      content = (case JSON_parse (drop 2 d) of
                                   Some parsed \<Rightarrow> Data parsed
                                 | None \<Rightarrow> Text (drop 2 d))\<rparr>]\<rparr>"
  using assms by (simp add: onmessage_string parseMessage_eq getMessageType_unknown)

theorem unknown_type_forwarded_witness:
  "2 \<le> length ''?:[1]'' \<and> map_of types (''?:[1]'' ! 0) = None
   \<and> onmessage (StringData ''?:[1]'') connecting_state
     = connecting_state\<lparr>posted := posted connecting_state @
         [Some \<lparr>message.type = ''unknown'', content = Data (JArray [JNumber ''1''])\<rparr>]\<rparr>"
proof -
  have l: "2 \<le> length ''?:[1]''" by simp
  have k: "map_of types (''?:[1]'' ! 0) = None" by code_simp
  have j: "JSON_parse (drop 2 ''?:[1]'') = Some (JArray [JNumber ''1''])" by code_simp
  from unknown_type_forwarded [OF l k, of connecting_state] j
  have "onmessage (StringData ''?:[1]'') connecting_state
     = connecting_state\<lparr>posted := posted connecting_state @
         [Some \<lparr>message.type = ''unknown'', content = Data (JArray [JNumber ''1''])\<rparr>]\<rparr>"
    by simp
  with l k show ?thesis by blast
qed

text \<open>
  C4, as claimed, fails: the \<^verbatim>\<open>command\<close> message \<^verbatim>\<open>C:hello\<close>, whose payload is not a JSON
  text, is given to \<^verbatim>\<open>window.postMessage\<close> with the payload as text, and nothing is
  written to the console.
\<close>

theorem unparsed_payload_forwarded_counterexample:
  "JSON_parse (drop 2 ''C:hello'') = None
   \<and> onmessage (StringData ''C:hello'') open_state
     = open_state\<lparr>posted := [Some \<lparr>message.type = ''command'', content = Text ''hello''\<rparr>]\<rparr>"
  by code_simp

text \<open>
  C4, amended. An incoming string of at least two characters, of any kind, whose payload
  (what follows index 2) is empty or is not a JSON text is not dropped: the handler
  returns, having given the viewer a message of the kind of the first character that
  carries the payload as text, and having changed nothing else: nothing is logged and
  the socket stays as it was.
\<close>

theorem unparsed_payload_forwarded:
  assumes "2 \<le> length d" and "JSON_parse (drop 2 d) = None"
  shows "onmessage (StringData d) c
         = c\<lparr>posted := posted c @
               [Some \<lparr>message.type = getMessageType (d ! 0), content = Text (drop 2 d)\<rparr>]\<rparr>"
  using assms by (simp add: onmessage_string parseMessage_eq)

theorem unparsed_payload_forwarded_witness:
  "2 \<le> length ''S:'' \<and> JSON_parse (drop 2 ''S:'') = None
   \<and> onmessage (StringData ''S:'') connecting_state
     = connecting_state\<lparr>posted := posted connecting_state @
         [Some \<lparr>message.type = ''config'', content = Text ''''\<rparr>]\<rparr>"
proof -
  have l: "2 \<le> length ''S:''" by simp
  have j: "JSON_parse (drop 2 ''S:'') = None" by code_simp
  have k: "getMessageType (''S:'' ! 0) = ''config''" by code_simp
  from unparsed_payload_forwarded [OF l j, of connecting_state] k
  have "onmessage (StringData ''S:'') connecting_state
     = connecting_state\<lparr>posted := posted connecting_state @
         [Some \<lparr>message.type = ''config'', content = Text ''''\<rparr>]\<rparr>"
    by simp
  with l j show ?thesis by blast
qed

section \<open>Status reports\<close>

text \<open>
  C1 does not hold of the code. \<^verbatim>\<open>sendStatus\<close> calls \<^verbatim>\<open>send\<close> with two arguments, the
  prefix \<^verbatim>\<open>U:\<close> and the JSON text of the status, and \<^verbatim>\<open>send\<close> has one parameter: for every
  status the call is \<^verbatim>\<open>send('U:')\<close>. On an open connection the frame transmitted is the
  bare \<^verbatim>\<open>U:\<close>, whose payload is empty and is not a JSON text; the frame the claim
  describes is another one.
\<close>

theorem sendStatus_drops_payload:
  "sendStatus s c = send ''U:'' c
   \<and> sendStatus (JObject [(''zoom'', JNumber ''2'')]) open_state
     = Inr (open_state\<lparr>ws := Some \<lparr>readyState = OPEN, sent = [''L:'', ''U:'']\<rparr>\<rparr>)
   \<and> sendStatus (JObject [(''zoom'', JNumber ''2'')]) connecting_state
     = Inr (queued ''U:'' connecting_state)
   \<and> JSON_parse (drop 2 ''U:'') = None
   \<and> JSON_parse (drop 2 (''U:'' @ JSON_stringify
         (JObject [(''command'', JString ''status''),
                   (''text'', JObject [(''zoom'', JNumber ''2'')])])))
     = Some (JObject [(''command'', JString ''status''),
                      (''text'', JObject [(''zoom'', JNumber ''2'')])])"
proof -
  have "sendStatus s c = send ''U:'' c" by (simp add: sendStatus_def call_send_def)
  moreover have "sendStatus (JObject [(''zoom'', JNumber ''2'')]) open_state
     = Inr (open_state\<lparr>ws := Some \<lparr>readyState = OPEN, sent = [''L:'', ''U:'']\<rparr>\<rparr>)"
    by code_simp
  moreover have "sendStatus (JObject [(''zoom'', JNumber ''2'')]) connecting_state
     = Inr (queued ''U:'' connecting_state)"
    by code_simp
  moreover have "JSON_parse (drop 2 ''U:'') = None" by code_simp
  moreover have "JSON_parse (drop 2 (''U:'' @ JSON_stringify
         (JObject [(''command'', JString ''status''),
                   (''text'', JObject [(''zoom'', JNumber ''2'')])])))
     = Some (JObject [(''command'', JString ''status''),
                      (''text'', JObject [(''zoom'', JNumber ''2'')])])"
    by code_simp
  ultimately show ?thesis by blast
qed

section \<open>The logo scene\<close>

lemma decode_checks_length:
  assumes "element_size (dtype b) = Some n" and "payload b = Some bytes"
  shows "decode b = (if length bytes mod n = 0 then Inr (chunks bytes) else Inl MalformedBuffer)"
  using assms by (simp add: decode_def)

text \<open>
  C6 does not hold of the logo. The text \<^verbatim>\<open>AQAAAAAA\<close> is eight base64 characters and
  decodes to the six bytes 1, 0, 0, 0, 0, 0; six is not a multiple of the element size
  4, so a decoder that checks the length as the specification requires refuses each of
  the five buffers of the logo with \<^verbatim>\<open>MalformedBuffer\<close>.
\<close>

theorem logo_buffers_malformed:
  "map payload (concat (map buffers (instance_table logo)))
     = replicate 5 (Some [1, 0, 0, 0, 0, 0])
   \<and> map (\<lambda>b. element_size (dtype b)) (concat (map buffers (instance_table logo)))
     = replicate 5 (Some 4)
   \<and> (6::nat) mod 4 = 2
   \<and> map decode (concat (map buffers (instance_table logo)))
     = replicate 5 (Inl MalformedBuffer)"
proof -
  let ?f = "\<lparr>buffer = ''AQAAAAAA'', codec = ''b64'', dtype = ''float32''\<rparr>"
  let ?i = "\<lparr>buffer = ''AQAAAAAA'', codec = ''b64'', dtype = ''int32''\<rparr>"
  have bs: "concat (map buffers (instance_table logo)) = [?f, ?f, ?f, ?i, ?i]"
    by (simp add: instance_table_def logo_def buffers_def)
  have pf: "payload ?f = Some [1, 0, 0, 0, 0, 0]" and pi: "payload ?i = Some [1, 0, 0, 0, 0, 0]"
    by code_simp+
  have ef: "element_size (dtype ?f) = Some 4" and ei: "element_size (dtype ?i) = Some 4"
    by (simp_all add: element_size_def)
  have df: "decode ?f = Inl MalformedBuffer"
    using decode_checks_length [OF ef pf] by simp
  have di: "decode ?i = Inl MalformedBuffer"
    using decode_checks_length [OF ei pi] by simp
  have r: "replicate 5 x = [x, x, x, x, x]" for x :: 'a
    by (simp add: numeral_eq_Suc)
  have "map payload [?f, ?f, ?f, ?i, ?i] = replicate 5 (Some [1, 0, 0, 0, 0, 0])"
    by (simp only: list.map pf pi r)
  moreover have "map (\<lambda>b. element_size (dtype b)) [?f, ?f, ?f, ?i, ?i] = replicate 5 (Some 4)"
    by (simp only: list.map ef ei r)
  moreover have "map decode [?f, ?f, ?f, ?i, ?i] = replicate 5 (Inl MalformedBuffer)"
    by (simp only: list.map df di r)
  moreover have "(6::nat) mod 4 = 2" by simp
  ultimately show ?thesis unfolding bs by blast
qed

text \<open>
  C7. The logo scene has one part, which refers to instance 0, and its instance table
  has one entry, so every reference of the scene resolves in the scene's own table;
  and every part of the scene carries a visibility state of exactly two booleans.
\<close>

theorem logo_references_resolve:
  "map (\<lambda>p. ref (part.shape p)) (scene_parts logo) = [0]
   \<and> length (instance_table logo) = 1
   \<and> map state (scene_parts logo) = [[True, True]]
   \<and> well_formed logo"
proof -
  have p: "scene_parts logo
      = [\<lparr>part.type = ''shapes'', part.shape = \<lparr>ref = 0\<rparr>, state = [True, True],
          part_id = ''logo'', name = ''OCP Logo''\<rparr>]"
    by (simp add: scene_parts_def logo_def)
  have n: "length (instance_table logo) = 1" by (simp add: instance_table_def logo_def)
  from p n have "well_formed logo" by (simp add: well_formed_def resolves_def)
  with p n show ?thesis by simp
qed

end
